theory Spec2Isabelle
  imports Main "HOL-Library.Sublist" "HOL-Library.Monad_Syntax"
begin

section \<open>Strings and character classes\<close>

text \<open>
  Go strings are byte sequences; they are modelled as \<^typ>\<open>string\<close> (a list of bytes).
  The two regular expressions of \<open>matcher.go\<close> only name ASCII characters and negated
  ASCII classes, so matching byte by byte gives the same matches as Go's matching rune by
  rune: every byte of a multi-byte rune lies outside the ASCII classes, and no match can
  begin or end inside such a rune.
\<close>

definition isDigit :: "char \<Rightarrow> bool" where
  \<comment> \<open>\<open>[0-9]\<close> and, in Go's RE2 syntax, \<open>\d\<close>\<close>
  "isDigit c = (c \<in> set ''0123456789'')"

definition isSpacePosix :: "char \<Rightarrow> bool" where
  \<comment> \<open>\<open>[[:space:]]\<close> is \<open>[\t\n\v\f\r ]\<close>\<close>
  "isSpacePosix c = (c \<in> {CHR 0x09, CHR 0x0A, CHR 0x0B, CHR 0x0C, CHR 0x0D, CHR '' ''})"

definition isSpacePerl :: "char \<Rightarrow> bool" where
  \<comment> \<open>\<open>\s\<close> is \<open>[\t\n\f\r ]\<close> (no vertical tab)\<close>
  "isSpacePerl c = (c \<in> {CHR 0x09, CHR 0x0A, CHR 0x0C, CHR 0x0D, CHR '' ''})"

definition isSegmentChar :: "char \<Rightarrow> bool" where
  \<comment> \<open>\<open>[^[:space:]/]\<close>\<close>
  "isSegmentChar c = (\<not> isSpacePosix c \<and> c \<noteq> CHR ''/'')"

fun TrimPrefix :: "string \<Rightarrow> string \<Rightarrow> string option" where
  \<comment> \<open>the rest of the text when it starts with the literal, \<open>None\<close> otherwise\<close>
  "TrimPrefix [] s = Some s"
| "TrimPrefix (p # ps) [] = None"
| "TrimPrefix (p # ps) (c # cs) = (if p = c then TrimPrefix ps cs else None)"

fun Contains :: "string \<Rightarrow> string \<Rightarrow> bool" where
  \<comment> \<open>\<open>strings.Contains(s, substr)\<close>\<close>
  "Contains [] substr = (substr = [])"
| "Contains (c # cs) substr = (prefix substr (c # cs) \<or> Contains cs substr)"

definition toLowerASCII :: "char \<Rightarrow> char" where
  "toLowerASCII c =
     (case map_of (zip ''ABCDEFGHIJKLMNOPQRSTUVWXYZ'' ''abcdefghijklmnopqrstuvwxyz'') c of
        Some l \<Rightarrow> l
      | None \<Rightarrow> c)"

definition EqualFold :: "string \<Rightarrow> string \<Rightarrow> bool" where
  \<comment> \<open>\<open>strings.EqualFold\<close> against an ASCII string without \<open>k\<close> or \<open>s\<close>: ASCII case folding\<close>
  "EqualFold s t = (map toLowerASCII s = map toLowerASCII t)"

fun digitsOfNat :: "nat \<Rightarrow> string" where
  "digitsOfNat n =
     (if n < 10 then [''0123456789'' ! n]
      else digitsOfNat (n div 10) @ [''0123456789'' ! (n mod 10)])"

definition Itoa :: "int \<Rightarrow> string" where
  \<comment> \<open>the verb \<open>%d\<close> of \<open>fmt\<close>\<close>
  "Itoa i = (if i < 0 then CHR ''-'' # digitsOfNat (nat (- i)) else digitsOfNat (nat i))"

section \<open>strconv.Atoi\<close>

definition digitVal :: "char \<Rightarrow> int" where
  "digitVal c = int (of_char c) - 48"

definition parseDigits :: "string \<Rightarrow> int" where
  "parseDigits ds = foldl (\<lambda>a c. 10 * a + digitVal c) 0 ds"

definition Atoi :: "string \<Rightarrow> int option" where
  \<comment> \<open>\<open>None\<close> is the \<open>*NumError\<close> (syntax or range); \<open>int\<close> is 64 bits wide\<close>
  "Atoi s =
     (let (neg, ds) =
        (case s of
           [] \<Rightarrow> (False, s)
         | c # cs \<Rightarrow>
             if c = CHR ''-'' then (True, cs)
             else if c = CHR ''+'' then (False, cs)
             else (False, s))
      in if ds = [] \<or> \<not> list_all isDigit ds then None
         else let n = (if neg then - parseDigits ds else parseDigits ds)
              in if n < - (2 ^ 63) \<or> 2 ^ 63 - 1 < n then None else Some n)"

section \<open>The two patterns of \<open>ExtractPRReferences\<close>\<close>

text \<open>
  A compiled pattern is modelled by its anchored matcher: given the text from some
  position on, it returns the submatches of the match that starts there (the whole match
  first, as \<open>FindAllStringSubmatch\<close> does) and the text after the match, or \<open>None\<close>.
  Go's \<open>regexp\<close> returns the leftmost match and, among the matches starting there, the
  one a backtracking search finds first. In both patterns each repetition is greedy and
  is followed by a character outside its class, and the optional \<open>s\<close> and \<open>-\<close> are tried
  first and then skipped, so the functions below follow that search exactly.
\<close>

type_synonym regexp = "string \<Rightarrow> (string list \<times> string) option"

definition matchSegment :: "string \<Rightarrow> (string \<times> string) option" where
  \<comment> \<open>\<open>([^[:space:]/]+)\<close>: the longest run, which must not be empty\<close>
  "matchSegment s =
     (let seg = takeWhile isSegmentChar s
      in if seg = [] then None else Some (seg, dropWhile isSegmentChar s))"

definition matchDigits :: "string \<Rightarrow> (string \<times> string) option" where
  \<comment> \<open>\<open>([0-9]+)\<close> and \<open>(\d+)\<close>\<close>
  "matchDigits s =
     (let digits = takeWhile isDigit s
      in if digits = [] then None else Some (digits, dropWhile isDigit s))"

definition matchAfterScheme :: "string \<Rightarrow> (string \<times> string \<times> string \<times> string) option" where
  \<comment> \<open>\<open>://github\.com/([^[:space:]/]+)/([^[:space:]/]+)/pull/([0-9]+)\<close>\<close>
  "matchAfterScheme s =
     do {
       s1 \<leftarrow> TrimPrefix ''://github.com/'' s;
       (owner, s2) \<leftarrow> matchSegment s1;
       s3 \<leftarrow> TrimPrefix ''/'' s2;
       (repo, s4) \<leftarrow> matchSegment s3;
       s5 \<leftarrow> TrimPrefix ''/pull/'' s4;
       (digits, rest) \<leftarrow> matchDigits s5;
       Some (owner, repo, digits, rest)
     }"

definition urlSubmatch :: "string \<Rightarrow> string \<Rightarrow> (string list \<times> string) option" where
  "urlSubmatch scheme s =
     (case matchAfterScheme s of
        None \<Rightarrow> None
      | Some (owner, repo, digits, rest) \<Rightarrow>
          Some ([scheme @ ''://github.com/'' @ owner @ ''/'' @ repo @ ''/pull/'' @ digits,
                 owner, repo, digits], rest))"

definition prURLPattern :: regexp where
  \<comment> \<open>\<open>https?://github\.com/([^[:space:]/]+)/([^[:space:]/]+)/pull/([0-9]+)\<close>\<close>
  "prURLPattern s =
     (case TrimPrefix ''http'' s of
        None \<Rightarrow> None
      | Some s0 \<Rightarrow>
          (case (case TrimPrefix ''s'' s0 of
                   Some s1 \<Rightarrow> urlSubmatch ''https'' s1
                 | None \<Rightarrow> None) of
             Some m \<Rightarrow> Some m
           | None \<Rightarrow> urlSubmatch ''http'' s0))"

definition numberTail :: "string \<Rightarrow> string \<Rightarrow> (string list \<times> string) option" where
  \<comment> \<open>\<open>\s*(\d+)\<close> after the prefix already matched\<close>
  "numberTail pre s =
     do {
       (digits, rest) \<leftarrow> matchDigits (dropWhile isSpacePerl s);
       Some ([pre @ takeWhile isSpacePerl s @ digits, digits], rest)
     }"

definition prNumberPattern :: regexp where
  \<comment> \<open>\<open>(?:#|PR-?)\s*(\d+)\<close>\<close>
  "prNumberPattern s =
     (case (case TrimPrefix ''#'' s of
              Some s1 \<Rightarrow> numberTail ''#'' s1
            | None \<Rightarrow> None) of
        Some m \<Rightarrow> Some m
      | None \<Rightarrow>
          (case TrimPrefix ''PR'' s of
             None \<Rightarrow> None
           | Some s1 \<Rightarrow>
               (case (case TrimPrefix ''-'' s1 of
                        Some s2 \<Rightarrow> numberTail ''PR-'' s2
                      | None \<Rightarrow> None) of
                  Some m \<Rightarrow> Some m
                | None \<Rightarrow> numberTail ''PR'' s1)))"

text \<open>
  \<open>FindAllStringSubmatch(text, -1)\<close>: the successive non-overlapping matches, each search
  starting where the previous match ended. Both patterns consume at least one character;
  a matcher that consumed none would make the search advance by one character, as Go does
  after an empty match.
\<close>

function FindAllStringSubmatch :: "regexp \<Rightarrow> string \<Rightarrow> string list list" where
  "FindAllStringSubmatch re s =
     (case s of
        [] \<Rightarrow> []
      | c # cs \<Rightarrow>
          (case re s of
             None \<Rightarrow> FindAllStringSubmatch re cs
           | Some (m, rest) \<Rightarrow>
               m # FindAllStringSubmatch re (if length rest < length s then rest else cs)))"
  by pat_completeness auto
termination
  by (relation "measure (\<lambda>(re, s). length s)") auto

declare FindAllStringSubmatch.simps [simp del]

section \<open>URL validation\<close>

datatype error = Errorf string | ContextErr | NotModelled

record ParsedURL =
  Scheme :: string
  Host :: string

definition isAlpha :: "char \<Rightarrow> bool" where
  "isAlpha c = (c \<in> set ''abcdefghijklmnopqrstuvwxyzABCDEFGHIJKLMNOPQRSTUVWXYZ'')"

definition ishex :: "char \<Rightarrow> bool" where
  "ishex c = (c \<in> set ''0123456789abcdefABCDEF'')"

definition isCTL :: "char \<Rightarrow> bool" where
  \<comment> \<open>\<open>b < ' ' || b == 0x7f\<close>\<close>
  "isCTL c = ((of_char c :: nat) < 32 \<or> (of_char c :: nat) = 127)"

definition isPlainHostChar :: "char \<Rightarrow> bool" where
  "isPlainHostChar c = (isAlpha c \<or> isDigit c \<or> c \<in> set ''-._~'')"

fun getSchemeLoop :: "string \<Rightarrow> string \<Rightarrow> string \<Rightarrow> error + (string \<times> string)" where
  "getSchemeLoop rawURL seen [] = Inr ([], rawURL)"
| "getSchemeLoop rawURL seen (c # cs) =
     (if isAlpha c then getSchemeLoop rawURL (seen @ [c]) cs
      else if isDigit c \<or> c \<in> set ''+-.'' then
        (if seen = [] then Inr ([], rawURL) else getSchemeLoop rawURL (seen @ [c]) cs)
      else if c = CHR '':'' then
        (if seen = [] then Inl (Errorf ''missing protocol scheme'') else Inr (seen, cs))
      else Inr ([], rawURL))"

definition getScheme :: "string \<Rightarrow> error + (string \<times> string)" where
  "getScheme rawURL = getSchemeLoop rawURL [] rawURL"

function validEscapes :: "string \<Rightarrow> bool" where
  \<comment> \<open>the check of \<open>unescape\<close>: every \<open>%\<close> is followed by two hexadecimal digits\<close>
  "validEscapes [] = True"
| "validEscapes (c # cs) =
     (if c = CHR ''%'' then
        (case cs of
           a # b # rest \<Rightarrow> ishex a \<and> ishex b \<and> validEscapes rest
         | _ \<Rightarrow> False)
      else validEscapes cs)"
  by pat_completeness auto
termination
  by (relation "measure length") auto

text \<open>
  \<open>url.Parse\<close> of Go's standard library, for the URLs that \<open>ExtractPRReferences\<close> passes
  to it: a scheme, \<open>//\<close>, an authority of plain host characters, a path, and possibly a
  query and a fragment. Only the two fields that \<open>validateGitHubURL\<close> reads are kept. Any
  other shape of URL (no scheme, no \<open>//\<close>, user information, a port, an IPv6 literal)
  gives \<open>NotModelled\<close>; no match of \<open>prURLPattern\<close> has such a shape
  (\<open>url_Parse_match\<close> below).
\<close>

definition url_Parse :: "string \<Rightarrow> error + ParsedURL" where
  "url_Parse rawURL =
     (let u = takeWhile (\<lambda>c. c \<noteq> CHR ''#'') rawURL;
          frag = drop (Suc (length u)) rawURL
      in if list_ex isCTL u then Inl (Errorf ''net/url: invalid control character in URL'')
         else case getScheme u of
                Inl err \<Rightarrow> Inl err
              | Inr (scheme, rest0) \<Rightarrow>
                  (case TrimPrefix ''//'' (takeWhile (\<lambda>c. c \<noteq> CHR ''?'') rest0) of
                     None \<Rightarrow> Inl NotModelled
                   | Some r \<Rightarrow>
                       (let authority = takeWhile (\<lambda>c. c \<noteq> CHR ''/'') r;
                            path = dropWhile (\<lambda>c. c \<noteq> CHR ''/'') r
                        in if scheme = [] \<or> \<not> list_all isPlainHostChar authority
                           then Inl NotModelled
                           else if \<not> validEscapes path
                           then Inl (Errorf ''invalid URL escape'')
                           else if frag \<noteq> [] \<and> \<not> validEscapes frag
                           then Inl (Errorf ''invalid URL escape'')
                           else Inr \<lparr>Scheme = map toLowerASCII scheme, Host = authority\<rparr>)))"

definition validateGitHubURL :: "string \<Rightarrow> error option" where
  \<comment> \<open>\<open>None\<close> is the \<open>nil\<close> error. In the host check the source returns \<open>err\<close>,
      which is \<open>nil\<close> at that point.\<close>
  "validateGitHubURL urlStr =
     (case url_Parse urlStr of
        Inl err \<Rightarrow> Some err
      | Inr parsedURL \<Rightarrow>
          if Scheme parsedURL \<noteq> ''https'' then Some (Errorf ''only HTTPS URLs are supported'')
          else if \<not> EqualFold (Host parsedURL) ''github.com'' then None
          else None)"

section \<open>ExtractPRReferences\<close>

record PRReference =
  Owner :: string
  Repository :: string
  Number :: int
  URL :: string

fun appendURLMatch :: "PRReference list \<Rightarrow> string list \<Rightarrow> PRReference list" where
  \<comment> \<open>the body of the loop over \<open>urlMatches\<close>\<close>
  "appendURLMatch references [m0, m1, m2, m3] =
     (case Atoi m3 of
        None \<Rightarrow> references
      | Some number \<Rightarrow>
          (case validateGitHubURL m0 of
             Some err \<Rightarrow> references
           | None \<Rightarrow>
               references @ [\<lparr>Owner = m1, Repository = m2, Number = number, URL = m0\<rparr>]))"
| "appendURLMatch references _ = references"

fun appendNumberMatch :: "PRReference list \<Rightarrow> string list \<Rightarrow> PRReference list" where
  \<comment> \<open>the body of the loop over \<open>numberMatches\<close>; \<open>alreadyExists\<close> looks at every
      reference collected so far\<close>
  "appendNumberMatch references [m0, m1] =
     (case Atoi m1 of
        None \<Rightarrow> references
      | Some number \<Rightarrow>
          if list_ex (\<lambda>existing. Number existing = number) references then references
          else references @ [\<lparr>Owner = [], Repository = [], Number = number, URL = []\<rparr>])"
| "appendNumberMatch references _ = references"

definition ExtractPRReferences :: "string \<Rightarrow> PRReference list" where
  \<comment> \<open>the error result of the source is always \<open>nil\<close> and is left out\<close>
  "ExtractPRReferences text =
     foldl appendNumberMatch
       (foldl appendURLMatch [] (FindAllStringSubmatch prURLPattern text))
       (FindAllStringSubmatch prNumberPattern text)"

section \<open>The GitHub client\<close>

text \<open>
  The GitHub API is an environment: what \<open>PullRequests.Get\<close> answers for a pull request,
  what the \<open>k\<close>-th call of \<open>PullRequests.CreateReview\<close> answers, and whether the context
  is done before the timer of the wait that precedes attempt \<open>k\<close> fires. Every call to the
  outside is recorded, in order, in a list of events that the functions pass along.
  Time stamps (\<open>ProcessedAt\<close>, \<open>Timestamp\<close> of a request) and log lines are left out.
\<close>

record SlackMessage =
  Text :: string
  Channel :: string
  User :: string
  Timestamp :: string
  ThreadTS :: string

text \<open>
  Two records cannot share a field name: the fields \<open>Owner\<close> and \<open>Repository\<close> of
  \<open>ApprovalRequest\<close> are \<open>ReqOwner\<close> and \<open>ReqRepository\<close> here, and the field
  \<open>SourceMessage\<close> of \<open>PatternMatch\<close> is \<open>MatchSource\<close>.
\<close>

record ApprovalRequest =
  ReqOwner :: string
  ReqRepository :: string
  PRNumber :: int
  Message :: string
  SourceChannel :: string
  SourceUser :: string
  SourceMessage :: SlackMessage

record ApprovalResult =
  Request :: ApprovalRequest
  Success :: bool
  ReviewID :: int
  Error :: string
  RetryAttempts :: int

record PullRequest =
  State :: string
  Merged :: bool

datatype 'a response =
    Ok 'a
  | Failed "int option" string
    \<comment> \<open>\<open>err != nil\<close>: the status code of the response when there is one, and the text of \<open>err\<close>\<close>

record GitHub =
  PullRequests_Get :: "string \<Rightarrow> string \<Rightarrow> int \<Rightarrow> PullRequest response"
  PullRequests_CreateReview :: "nat \<Rightarrow> string \<Rightarrow> string \<Rightarrow> int \<Rightarrow> int response"
  ctx_Done :: "nat \<Rightarrow> bool"

datatype event =
    GetPullRequest string string int
  | CreateReview string string int
  | Sleep nat
  | AddReaction string string string

fun isCreateReview :: "event \<Rightarrow> bool" where
  "isCreateReview (CreateReview owner repo n) = True"
| "isCreateReview _ = False"

fun isGetPullRequest :: "event \<Rightarrow> bool" where
  "isGetPullRequest (GetPullRequest owner repo n) = True"
| "isGetPullRequest _ = False"

fun isAddReaction :: "event \<Rightarrow> bool" where
  "isAddReaction (AddReaction channel timestamp emoji) = True"
| "isAddReaction _ = False"

definition reviewCalls :: "event list \<Rightarrow> nat" where
  "reviewCalls tr = length (filter isCreateReview tr)"

definition ValidatePRReference ::
    "GitHub \<Rightarrow> string \<Rightarrow> string \<Rightarrow> int \<Rightarrow> event list \<Rightarrow> error option \<times> event list" where
  "ValidatePRReference gh owner repo prNumber tr =
     (case PullRequests_Get gh owner repo prNumber of
        Failed status err \<Rightarrow>
          (if status = Some 404 then
             Some (Errorf (''PR #'' @ Itoa prNumber @ '' not found in '' @ owner @ ''/'' @ repo))
           else if status = Some 403 then
             Some (Errorf (''insufficient permissions to access PR #'' @ Itoa prNumber @
                           '' in '' @ owner @ ''/'' @ repo))
           else Some (Errorf (''failed to get PR #'' @ Itoa prNumber @ '': '' @ err)),
           tr @ [GetPullRequest owner repo prNumber])
      | Ok pr \<Rightarrow>
          (if State pr \<noteq> ''open'' then
             Some (Errorf (''PR #'' @ Itoa prNumber @ '' is '' @ State pr @ '' and cannot be approved''))
           else if Merged pr then
             Some (Errorf (''PR #'' @ Itoa prNumber @ '' is already merged''))
           else None,
           tr @ [GetPullRequest owner repo prNumber]))"

definition approvalError :: "ApprovalRequest \<Rightarrow> int option \<Rightarrow> string \<Rightarrow> string" where
  \<comment> \<open>the value of \<open>result.Error\<close> that \<open>ApprovePR\<close> computes when \<open>err != nil\<close>\<close>
  "approvalError req status err =
     (if status = Some 404 then
        ''PR #'' @ Itoa (PRNumber req) @ '' not found in '' @ ReqOwner req @ ''/'' @ ReqRepository req
      else if status = Some 403 then
        ''insufficient permissions to approve PR #'' @ Itoa (PRNumber req)
      else if status = Some 422 then
        ''PR #'' @ Itoa (PRNumber req) @ '' cannot be approved (already merged or closed)''
      else ''failed to approve PR #'' @ Itoa (PRNumber req) @ '': '' @ err)"

definition ApprovePR ::
    "GitHub \<Rightarrow> ApprovalRequest \<Rightarrow> event list \<Rightarrow> (ApprovalResult \<times> error option) \<times> event list" where
  "ApprovePR gh req tr =
     (let result = \<lparr>Request = req, Success = False, ReviewID = 0, Error = [], RetryAttempts = 0\<rparr>
      in case PullRequests_CreateReview gh (reviewCalls tr)
                (ReqOwner req) (ReqRepository req) (PRNumber req) of
           Failed status err \<Rightarrow>
             ((result\<lparr>Success := False, Error := approvalError req status err\<rparr>, None),
              tr @ [CreateReview (ReqOwner req) (ReqRepository req) (PRNumber req)])
         | Ok reviewID \<Rightarrow>
             ((result\<lparr>Success := True, ReviewID := reviewID\<rparr>, None),
              tr @ [CreateReview (ReqOwner req) (ReqRepository req) (PRNumber req)]))"

definition permanentErrors :: "string list" where
  "permanentErrors =
     [''not found'', ''insufficient permissions'', ''already merged'', ''already closed'',
      ''invalid_auth'', ''Bad credentials'']"

definition isPermanentError :: "string \<Rightarrow> bool" where
  "isPermanentError errorMsg = list_ex (\<lambda>permanent. Contains errorMsg permanent) permanentErrors"

definition maxRetries :: nat where
  "maxRetries = 3"

fun errorText :: "error option \<Rightarrow> string" where
  \<comment> \<open>the verb \<open>%v\<close> on an error\<close>
  "errorText None = ''<nil>''"
| "errorText (Some (Errorf msg)) = msg"
| "errorText (Some ContextErr) = ''context canceled''"
| "errorText (Some NotModelled) = []"

text \<open>
  The loop of \<open>ApprovePRWithRetry\<close>, from attempt \<open>attempt\<close> on. Before every attempt but
  the first the source waits \<open>1 << attempt\<close> seconds in a \<open>select\<close> with \<open>ctx.Done()\<close>:
  when the context is done first, it returns \<open>nil, ctx.Err()\<close>, here \<open>Inl ContextErr\<close>.
  Every \<open>return\<close> of the source gives either a result and a \<open>nil\<close> error or \<open>nil\<close> and an
  error, so the pair is a sum.
\<close>

function retryLoop ::
    "GitHub \<Rightarrow> ApprovalRequest \<Rightarrow> nat \<Rightarrow> ApprovalResult option \<Rightarrow> error option \<Rightarrow> event list
       \<Rightarrow> (error + ApprovalResult) \<times> event list" where
  "retryLoop gh req attempt lastResult lastErr tr =
     (if attempt < maxRetries then
        if 0 < attempt \<and> ctx_Done gh attempt then (Inl ContextErr, tr)
        else
          (case ApprovePR gh req (if 0 < attempt then tr @ [Sleep (2 ^ attempt)] else tr) of
             ((result, Some err), tr') \<Rightarrow>
               retryLoop gh req (Suc attempt) (Some result) (Some err) tr'
           | ((result, None), tr') \<Rightarrow>
               if Success result \<or> isPermanentError (Error result) then
                 (Inr (if RetryAttempts result = 0
                       then result\<lparr>RetryAttempts := int attempt\<rparr> else result), tr')
               else
                 retryLoop gh req (Suc attempt) (Some result)
                   (Some (Errorf (''approval failed: '' @ Error result))) tr')
      else
        (case lastResult of
           Some r \<Rightarrow> (Inr (r\<lparr>RetryAttempts := int maxRetries\<rparr>), tr)
         | None \<Rightarrow>
             (Inl (Errorf (''approval failed after '' @ Itoa (int maxRetries) @ '' attempts: '' @
                           errorText lastErr)), tr)))"
  by pat_completeness auto
termination
  by (relation "measure (\<lambda>(gh, req, attempt, lastResult, lastErr, tr). maxRetries - attempt)") auto

declare retryLoop.simps [simp del]

definition ApprovePRWithRetry ::
    "GitHub \<Rightarrow> ApprovalRequest \<Rightarrow> event list \<Rightarrow> (error + ApprovalResult) \<times> event list" where
  "ApprovePRWithRetry gh req tr = retryLoop gh req 0 None None tr"

section \<open>The Slack handler\<close>

datatype ReactionKind =
    ProcessingStarted    \<comment> \<open>\<open>processPRApprovals\<close>: "Add eyes reaction - processing started"\<close>
  | ApprovalSucceeded    \<comment> \<open>\<open>processApproval\<close>: "React with checkmark on success"\<close>
  | ApprovalFailed       \<comment> \<open>\<open>processApproval\<close>: "React with X on failure"\<close>
  | NoReferencesFound    \<comment> \<open>\<open>processMessage\<close>: "React with X emoji - no PR references found"\<close>

fun reactionSymbol :: "ReactionKind \<Rightarrow> string" where
  \<comment> \<open>the emoji name that each of the four call sites of \<open>addReaction\<close> passes\<close>
  "reactionSymbol ProcessingStarted = ''eyes''"
| "reactionSymbol ApprovalSucceeded = ''white_check_mark''"
| "reactionSymbol ApprovalFailed = ''x''"
| "reactionSymbol NoReferencesFound = ''x''"

definition addReaction :: "string \<Rightarrow> string \<Rightarrow> string \<Rightarrow> event list \<Rightarrow> event list" where
  \<comment> \<open>a failure of the Slack call is logged and has no other effect\<close>
  "addReaction channel timestamp emoji tr = tr @ [AddReaction channel timestamp emoji]"

definition processApproval :: "GitHub \<Rightarrow> ApprovalRequest \<Rightarrow> event list \<Rightarrow> event list" where
  "processApproval gh req tr =
     (case ValidatePRReference gh (ReqOwner req) (ReqRepository req) (PRNumber req) tr of
        (Some err, tr1) \<Rightarrow> tr1
      | (None, tr1) \<Rightarrow>
          (case ApprovePRWithRetry gh req tr1 of
             (Inl err, tr2) \<Rightarrow> tr2
           | (Inr result, tr2) \<Rightarrow>
               if Success result then
                 addReaction (SourceChannel req) (Timestamp (SourceMessage req))
                   (reactionSymbol ApprovalSucceeded) tr2
               else
                 addReaction (SourceChannel req) (Timestamp (SourceMessage req))
                   (reactionSymbol ApprovalFailed) tr2))"








section \<open>Notions used in the statements\<close>

text \<open>
  The definitions of this section belong to the statements, not to the program: the call
  and the answer of the \<open>k\<close>-th approval attempt, what it means for an answer to be a
  transient failure, when the validation of a request fails, and the inputs on which the
  theorems are instantiated.
\<close>

definition transientFailure :: "ApprovalRequest \<Rightarrow> int response \<Rightarrow> bool" where
  "transientFailure req resp =
     (case resp of
        Ok reviewID \<Rightarrow> False
      | Failed status err \<Rightarrow> \<not> isPermanentError (approvalError req status err))"

definition reviewResponse :: "GitHub \<Rightarrow> ApprovalRequest \<Rightarrow> nat \<Rightarrow> int response" where
  "reviewResponse gh req k =
     PullRequests_CreateReview gh k (ReqOwner req) (ReqRepository req) (PRNumber req)"

definition reviewEvent :: "ApprovalRequest \<Rightarrow> event" where
  "reviewEvent req = CreateReview (ReqOwner req) (ReqRepository req) (PRNumber req)"

definition failedResult :: "ApprovalRequest \<Rightarrow> int option \<Rightarrow> string \<Rightarrow> ApprovalResult" where
  "failedResult req status err =
     \<lparr>Request = req, Success = False, ReviewID = 0,
      Error = approvalError req status err, RetryAttempts = 0\<rparr>"

definition validationFails :: "GitHub \<Rightarrow> ApprovalRequest \<Rightarrow> bool" where
  "validationFails gh req =
     (case PullRequests_Get gh (ReqOwner req) (ReqRepository req) (PRNumber req) of
        Failed status err \<Rightarrow> True
      | Ok pr \<Rightarrow> State pr \<noteq> ''open'' \<or> Merged pr)"

definition validationEvent :: "ApprovalRequest \<Rightarrow> event" where
  "validationEvent req = GetPullRequest (ReqOwner req) (ReqRepository req) (PRNumber req)"

definition exampleRequest :: ApprovalRequest where
  "exampleRequest =
     \<lparr>ReqOwner = ''acme'', ReqRepository = ''widget'', PRNumber = 42, Message = [],
      SourceChannel = ''C1'', SourceUser = ''U1'',
      SourceMessage = \<lparr>Text = ''LGTM #42'', Channel = ''C1'', User = ''U1'',
                        Timestamp = ''1.0'', ThreadTS = []\<rparr>\<rparr>"

definition ghServerError :: GitHub where
  \<comment> \<open>the pull request is open; every approval call fails with a server error\<close>
  "ghServerError =
     \<lparr>PullRequests_Get = (\<lambda>owner repo n. Ok \<lparr>State = ''open'', Merged = False\<rparr>),
      PullRequests_CreateReview = (\<lambda>k owner repo n. Failed (Some 500) ''server error''),
      ctx_Done = (\<lambda>k. False)\<rparr>"

definition ghCancelled :: GitHub where
  \<comment> \<open>as \<open>ghServerError\<close>, and the context is done during the wait before the third attempt\<close>
  "ghCancelled =
     \<lparr>PullRequests_Get = (\<lambda>owner repo n. Ok \<lparr>State = ''open'', Merged = False\<rparr>),
      PullRequests_CreateReview = (\<lambda>k owner repo n. Failed (Some 500) ''server error''),
      ctx_Done = (\<lambda>k. k = 2)\<rparr>"

definition ghMerged :: GitHub where
  \<comment> \<open>the pull request is merged; an approval call would succeed\<close>
  "ghMerged =
     \<lparr>PullRequests_Get = (\<lambda>owner repo n. Ok \<lparr>State = ''closed'', Merged = True\<rparr>),
      PullRequests_CreateReview = (\<lambda>k owner repo n. Ok 7),
      ctx_Done = (\<lambda>k. False)\<rparr>"




definition ghNotFound :: GitHub where
  \<comment> \<open>the pull request does not exist\<close>
  "ghNotFound =
     \<lparr>PullRequests_Get = (\<lambda>owner repo n. Failed (Some 404) ''Not Found''),
      PullRequests_CreateReview = (\<lambda>k owner repo n. Failed (Some 404) ''Not Found''),
      ctx_Done = (\<lambda>k. False)\<rparr>"

section \<open>Facts about the matcher\<close>

text \<open>
  The recursive equation of \<open>FindAllStringSubmatch\<close> is used in the two forms below, one
  per shape of the text.
\<close>

lemma FindAllStringSubmatch_Nil [simp]: "FindAllStringSubmatch re [] = []"
  by (simp add: FindAllStringSubmatch.simps)

lemma FindAllStringSubmatch_Cons [simp]:
  "FindAllStringSubmatch re (c # cs) =
     (case re (c # cs) of
        None \<Rightarrow> FindAllStringSubmatch re cs
      | Some (m, rest) \<Rightarrow>
          m # FindAllStringSubmatch re (if length rest < length (c # cs) then rest else cs))"
  by (subst FindAllStringSubmatch.simps) simp

subsection \<open>The shape of a match of the URL pattern\<close>

lemma TrimPrefix_Some: "TrimPrefix p s = Some r \<longleftrightarrow> s = p @ r"
  by (induction p s rule: TrimPrefix.induct) auto

lemma matchSegment_Some:
  "matchSegment s = Some (seg, rest) \<Longrightarrow>
     s = seg @ rest \<and> seg \<noteq> [] \<and> list_all isSegmentChar seg"
  by (auto simp: matchSegment_def Let_def list_all_iff split: if_splits dest: set_takeWhileD)

lemma matchDigits_Some:
  "matchDigits s = Some (ds, rest) \<Longrightarrow>
     s = ds @ rest \<and> ds \<noteq> [] \<and> list_all isDigit ds \<and> (rest = [] \<or> \<not> isDigit (hd rest))"
  by (auto simp: matchDigits_def Let_def list_all_iff hd_dropWhile split: if_splits dest: set_takeWhileD)

lemma matchAfterScheme_Some:
  assumes "matchAfterScheme s = Some (owner, repo, ds, rest)"
  shows "s = ''://github.com/'' @ owner @ ''/'' @ repo @ ''/pull/'' @ ds @ rest"
    and "owner \<noteq> []" "list_all isSegmentChar owner" "repo \<noteq> []" "list_all isSegmentChar repo"
    and "ds \<noteq> []" "list_all isDigit ds"
proof -
  from assms obtain s1 s2 s3 s4 s5 where
    a: "TrimPrefix ''://github.com/'' s = Some s1" and
    b: "matchSegment s1 = Some (owner, s2)" and
    c: "TrimPrefix ''/'' s2 = Some s3" and
    d: "matchSegment s3 = Some (repo, s4)" and
    e: "TrimPrefix ''/pull/'' s4 = Some s5" and
    f: "matchDigits s5 = Some (ds, rest)"
    unfolding matchAfterScheme_def
    by (auto simp: bind_eq_Some_conv)
  note A = a[unfolded TrimPrefix_Some] c[unfolded TrimPrefix_Some] e[unfolded TrimPrefix_Some]
    matchSegment_Some[OF b] matchSegment_Some[OF d] matchDigits_Some[OF f]
  from A show "s = ''://github.com/'' @ owner @ ''/'' @ repo @ ''/pull/'' @ ds @ rest" by simp
  from A show "owner \<noteq> []" "list_all isSegmentChar owner" "repo \<noteq> []" "list_all isSegmentChar repo"
    "ds \<noteq> []" "list_all isDigit ds" by simp_all
qed

lemma urlSubmatch_Some:
  assumes "urlSubmatch scheme s = Some (m, rest)"
  shows "\<exists>owner repo ds.
           m = [scheme @ ''://github.com/'' @ owner @ ''/'' @ repo @ ''/pull/'' @ ds, owner, repo, ds] \<and>
           s = ''://github.com/'' @ owner @ ''/'' @ repo @ ''/pull/'' @ ds @ rest \<and>
           owner \<noteq> [] \<and> list_all isSegmentChar owner \<and> repo \<noteq> [] \<and> list_all isSegmentChar repo \<and>
           ds \<noteq> [] \<and> list_all isDigit ds"
proof -
  from assms obtain owner repo ds where
    m: "matchAfterScheme s = Some (owner, repo, ds, rest)"
    "m = [scheme @ ''://github.com/'' @ owner @ ''/'' @ repo @ ''/pull/'' @ ds, owner, repo, ds]"
    unfolding urlSubmatch_def by (auto split: option.splits)
  from matchAfterScheme_Some[OF m(1)] m(2) show ?thesis by blast
qed

lemma prURLPattern_Some:
  assumes "prURLPattern s = Some (m, rest)"
  shows "\<exists>scheme owner repo ds.
           (scheme = ''http'' \<or> scheme = ''https'') \<and>
           m = [scheme @ ''://github.com/'' @ owner @ ''/'' @ repo @ ''/pull/'' @ ds, owner, repo, ds] \<and>
           s = scheme @ ''://github.com/'' @ owner @ ''/'' @ repo @ ''/pull/'' @ ds @ rest \<and>
           owner \<noteq> [] \<and> list_all isSegmentChar owner \<and> repo \<noteq> [] \<and> list_all isSegmentChar repo \<and>
           ds \<noteq> [] \<and> list_all isDigit ds"
proof -
  from assms obtain s0 where s0: "s = ''http'' @ s0"
    unfolding prURLPattern_def by (auto split: option.splits simp: TrimPrefix_Some)
  from assms s0 consider
    (https) s1 where "s0 = ''s'' @ s1" "urlSubmatch ''https'' s1 = Some (m, rest)"
    | (http) "urlSubmatch ''http'' s0 = Some (m, rest)"
    unfolding prURLPattern_def
    by (cases "TrimPrefix ''http'' s") (auto split: option.splits simp: TrimPrefix_Some)
  then show ?thesis
  proof cases
    case https
    from urlSubmatch_Some[OF https(2)] obtain owner repo ds where
      u: "m = [''https'' @ ''://github.com/'' @ owner @ ''/'' @ repo @ ''/pull/'' @ ds, owner, repo, ds]"
      "s1 = ''://github.com/'' @ owner @ ''/'' @ repo @ ''/pull/'' @ ds @ rest"
      "owner \<noteq> []" "list_all isSegmentChar owner" "repo \<noteq> []" "list_all isSegmentChar repo"
      "ds \<noteq> []" "list_all isDigit ds"
      by blast
    from u(2) https(1) s0 have
      "s = ''https'' @ ''://github.com/'' @ owner @ ''/'' @ repo @ ''/pull/'' @ ds @ rest"
      by simp
    with u show ?thesis by blast
  next
    case http
    from urlSubmatch_Some[OF http] obtain owner repo ds where
      u: "m = [''http'' @ ''://github.com/'' @ owner @ ''/'' @ repo @ ''/pull/'' @ ds, owner, repo, ds]"
      "s0 = ''://github.com/'' @ owner @ ''/'' @ repo @ ''/pull/'' @ ds @ rest"
      "owner \<noteq> []" "list_all isSegmentChar owner" "repo \<noteq> []" "list_all isSegmentChar repo"
      "ds \<noteq> []" "list_all isDigit ds"
      by blast
    from u(2) s0 have
      "s = ''http'' @ ''://github.com/'' @ owner @ ''/'' @ repo @ ''/pull/'' @ ds @ rest"
      by simp
    with u show ?thesis by blast
  qed
qed

lemma FindAllStringSubmatch_mem:
  "m \<in> set (FindAllStringSubmatch re s) \<Longrightarrow> \<exists>s' rest. re s' = Some (m, rest)"
proof (induction re s rule: FindAllStringSubmatch.induct)
  case (1 re s)
  show ?case
  proof (cases s)
    case Nil
    with "1.prems" show ?thesis by simp
  next
    case (Cons c cs)
    show ?thesis
    proof (cases "re s")
      case None
      with Cons "1.prems" have "m \<in> set (FindAllStringSubmatch re cs)" by simp
      with "1.IH"(1)[OF Cons None] show ?thesis .
    next
      case (Some p)
      obtain m' rest where p: "p = (m', rest)" by (cases p)
      from Cons Some p "1.prems" have
        "m = m' \<or> m \<in> set (FindAllStringSubmatch re (if length rest < length s then rest else cs))"
        by simp
      then show ?thesis
      proof
        assume "m = m'" with Some p show ?thesis by blast
      next
        assume "m \<in> set (FindAllStringSubmatch re (if length rest < length s then rest else cs))"
        with "1.IH"(2)[OF Cons Some p[symmetric]] show ?thesis by simp
      qed
    qed
  qed
qed

subsection \<open>What \<open>url.Parse\<close> and \<open>validateGitHubURL\<close> make of a match\<close>

lemma url_Parse_http:
  "url_Parse (''http'' @ ''://github.com/'' @ path) = Inr \<lparr>Scheme = ''http'', Host = ''github.com''\<rparr>
       \<or> (\<exists>msg. url_Parse (''http'' @ ''://github.com/'' @ path) = Inl (Errorf msg))"
  by (simp add: url_Parse_def getScheme_def isAlpha_def isDigit_def isPlainHostChar_def
      toLowerASCII_def Let_def)

lemma url_Parse_https:
  "url_Parse (''https'' @ ''://github.com/'' @ path) = Inr \<lparr>Scheme = ''https'', Host = ''github.com''\<rparr>
       \<or> (\<exists>msg. url_Parse (''https'' @ ''://github.com/'' @ path) = Inl (Errorf msg))"
  by (simp add: url_Parse_def getScheme_def isAlpha_def isDigit_def isPlainHostChar_def
      toLowerASCII_def Let_def)

lemma url_Parse_match:
  assumes "scheme = ''http'' \<or> scheme = ''https''"
  shows "url_Parse (scheme @ ''://github.com/'' @ path) = Inr \<lparr>Scheme = scheme, Host = ''github.com''\<rparr>
       \<or> (\<exists>msg. url_Parse (scheme @ ''://github.com/'' @ path) = Inl (Errorf msg))"
  using assms url_Parse_http[of path] url_Parse_https[of path] by blast

lemma validateGitHubURL_match:
  assumes "scheme = ''http'' \<or> scheme = ''https''"
  shows "validateGitHubURL (scheme @ ''://github.com/'' @ path) = None \<longleftrightarrow>
         scheme = ''https'' \<and>
         url_Parse (scheme @ ''://github.com/'' @ path) = Inr \<lparr>Scheme = ''https'', Host = ''github.com''\<rparr>"
  using url_Parse_match[OF assms, of path] assms
  by (auto simp: validateGitHubURL_def)

lemma validateGitHubURL_Nil: "validateGitHubURL [] \<noteq> None"
  by (simp add: validateGitHubURL_def url_Parse_def getScheme_def)

subsection \<open>The two loops\<close>

lemma appendURLMatch_URL_nonempty:
  "\<forall>r\<in>set refs. URL r \<noteq> [] \<Longrightarrow> \<forall>r\<in>set (appendURLMatch refs m). URL r \<noteq> []"
  by (induction refs m rule: appendURLMatch.induct)
     (auto split: option.splits simp: validateGitHubURL_Nil)

lemma foldl_appendURLMatch_URL_nonempty:
  "\<forall>r\<in>set refs. URL r \<noteq> [] \<Longrightarrow> \<forall>r\<in>set (foldl appendURLMatch refs ms). URL r \<noteq> []"
proof (induction ms arbitrary: refs)
  case Nil
  then show ?case by simp
next
  case (Cons m ms)
  from Cons.IH[OF appendURLMatch_URL_nonempty[OF Cons.prems]] show ?case by simp
qed

lemma appendNumberMatch_filter_URL:
  "filter (\<lambda>r. URL r \<noteq> []) (appendNumberMatch refs m) = filter (\<lambda>r. URL r \<noteq> []) refs"
  by (induction refs m rule: appendNumberMatch.induct) (auto split: option.splits)

lemma foldl_appendNumberMatch_filter_URL:
  "filter (\<lambda>r. URL r \<noteq> []) (foldl appendNumberMatch refs ms) = filter (\<lambda>r. URL r \<noteq> []) refs"
  by (induction ms arbitrary: refs) (simp_all add: appendNumberMatch_filter_URL)

lemma ExtractPRReferences_URL_part:
  "filter (\<lambda>r. URL r \<noteq> []) (ExtractPRReferences message) =
     foldl appendURLMatch [] (FindAllStringSubmatch prURLPattern message)"
proof -
  have "\<forall>r\<in>set (foldl appendURLMatch [] (FindAllStringSubmatch prURLPattern message)). URL r \<noteq> []"
    by (rule foldl_appendURLMatch_URL_nonempty) simp
  then have "filter (\<lambda>r. URL r \<noteq> []) (foldl appendURLMatch [] (FindAllStringSubmatch prURLPattern message))
      = foldl appendURLMatch [] (FindAllStringSubmatch prURLPattern message)"
    by (simp add: filter_id_conv)
  then show ?thesis
    by (simp add: ExtractPRReferences_def foldl_appendNumberMatch_filter_URL)
qed

subsection \<open>The shape of a match of the number pattern\<close>

lemma numberTail_Some:
  assumes "numberTail pre s = Some (m, rest)"
  shows "\<exists>sp ds. m = [pre @ sp @ ds, ds] \<and> s = sp @ ds @ rest \<and>
           list_all isSpacePerl sp \<and> ds \<noteq> [] \<and> list_all isDigit ds"
proof -
  from assms obtain ds where
    d: "matchDigits (dropWhile isSpacePerl s) = Some (ds, rest)" and
    m: "m = [pre @ takeWhile isSpacePerl s @ ds, ds]"
    unfolding numberTail_def by (auto simp: bind_eq_Some_conv)
  from matchDigits_Some[OF d] have
    "dropWhile isSpacePerl s = ds @ rest" "ds \<noteq> []" "list_all isDigit ds" by simp_all
  moreover have "s = takeWhile isSpacePerl s @ dropWhile isSpacePerl s" by simp
  moreover have "list_all isSpacePerl (takeWhile isSpacePerl s)"
    by (auto simp: list_all_iff dest: set_takeWhileD)
  ultimately show ?thesis using m by metis
qed

lemma prNumberPattern_Some:
  assumes "prNumberPattern s = Some (m, rest)"
  shows "\<exists>pre sp ds. (pre = ''#'' \<or> pre = ''PR'' \<or> pre = ''PR-'') \<and>
           m = [pre @ sp @ ds, ds] \<and> s = pre @ sp @ ds @ rest \<and>
           list_all isSpacePerl sp \<and> ds \<noteq> [] \<and> list_all isDigit ds"
proof -
  from assms have
    "(\<exists>s1. TrimPrefix ''#'' s = Some s1 \<and> numberTail ''#'' s1 = Some (m, rest)) \<or>
     (\<exists>s1 s2. TrimPrefix ''PR'' s = Some s1 \<and> TrimPrefix ''-'' s1 = Some s2 \<and>
         numberTail ''PR-'' s2 = Some (m, rest)) \<or>
     (\<exists>s1. TrimPrefix ''PR'' s = Some s1 \<and> numberTail ''PR'' s1 = Some (m, rest))"
    unfolding prNumberPattern_def by (simp split: option.splits)
  then consider
    (hash) s1 where "s = ''#'' @ s1" "numberTail ''#'' s1 = Some (m, rest)"
    | (dash) s2 where "s = ''PR'' @ ''-'' @ s2" "numberTail ''PR-'' s2 = Some (m, rest)"
    | (plain) s1 where "s = ''PR'' @ s1" "numberTail ''PR'' s1 = Some (m, rest)"
    unfolding TrimPrefix_Some by auto
  then show ?thesis
  proof cases
    case hash
    from numberTail_Some[OF hash(2)] hash(1) show ?thesis by auto
  next
    case dash
    from numberTail_Some[OF dash(2)] dash(1) show ?thesis by auto
  next
    case plain
    from numberTail_Some[OF plain(2)] plain(1) show ?thesis by auto
  qed
qed

lemma isDigit_not_mark: "isDigit c \<Longrightarrow> c \<noteq> CHR ''#'' \<and> c \<noteq> CHR ''P''"
  by (auto simp: isDigit_def)

lemma isSpacePerl_not_mark: "isSpacePerl c \<Longrightarrow> c \<noteq> CHR ''#'' \<and> c \<noteq> CHR ''P''"
  by (auto simp: isSpacePerl_def)

lemma isDigit_not_space: "isDigit c \<Longrightarrow> \<not> isSpacePerl c"
  by (auto simp: isDigit_def isSpacePerl_def)

text \<open>
  After its first character a match of the number pattern holds only \<open>R\<close>, \<open>-\<close>, white
  space and digits. So a match that starts before a \<open>#\<close> or a \<open>P\<close> ends before it, and
  the search for the next match reaches every position where one of the three tokens
  starts.
\<close>

lemma prNumberPattern_match_shape:
  assumes "prNumberPattern s = Some (m, rest)"
  shows "\<exists>M. s = M @ rest \<and> M \<noteq> [] \<and> (\<forall>c\<in>set (tl M). c \<noteq> CHR ''#'' \<and> c \<noteq> CHR ''P'')"
proof -
  from prNumberPattern_Some[OF assms] obtain pre sp ds where
    pre: "pre = ''#'' \<or> pre = ''PR'' \<or> pre = ''PR-''" and
    s: "s = pre @ sp @ ds @ rest" and
    sp: "list_all isSpacePerl sp" and ds: "list_all isDigit ds"
    by blast
  have tail: "\<forall>c\<in>set (sp @ ds). c \<noteq> CHR ''#'' \<and> c \<noteq> CHR ''P''"
    using sp ds by (auto simp: list_all_iff dest: isDigit_not_mark isSpacePerl_not_mark)
  have "\<forall>c\<in>set (tl pre @ sp @ ds). c \<noteq> CHR ''#'' \<and> c \<noteq> CHR ''P''"
    using pre
  proof (elim disjE)
    assume "pre = ''#''" with tail show ?thesis by simp
  next
    assume "pre = ''PR''" with tail show ?thesis by simp
  next
    assume "pre = ''PR-''" with tail show ?thesis by simp
  qed
  moreover from pre have "pre \<noteq> []" by auto
  then have "tl (pre @ sp @ ds) = tl pre @ sp @ ds" "pre @ sp @ ds \<noteq> []" by simp_all
  moreover from s have "s = (pre @ sp @ ds) @ rest" by simp
  ultimately show ?thesis by metis
qed

lemma prNumberPattern_ends_before:
  assumes "prNumberPattern (x @ c # y) = Some (m, rest)" and "x \<noteq> []"
    and "c = CHR ''#'' \<or> c = CHR ''P''"
  shows "\<exists>x'. rest = x' @ c # y \<and> length x' < length x"
proof -
  from prNumberPattern_match_shape[OF assms(1)] obtain M where
    M: "x @ c # y = M @ rest" "M \<noteq> []" "\<forall>c\<in>set (tl M). c \<noteq> CHR ''#'' \<and> c \<noteq> CHR ''P''"
    by blast
  from M(1) obtain us where
    "(x = M @ us \<and> us @ c # y = rest) \<or> (x @ us = M \<and> c # y = us @ rest)"
    by (auto simp: append_eq_append_conv2)
  then show ?thesis
  proof
    assume "x = M @ us \<and> us @ c # y = rest"
    with M(2) show ?thesis by (intro exI[of _ us]) auto
  next
    assume a: "x @ us = M \<and> c # y = us @ rest"
    show ?thesis
    proof (cases us)
      case Nil
      with a assms(2) show ?thesis by (intro exI[of _ "[]"]) auto
    next
      case (Cons u us')
      with a have "u = c" by simp
      with a Cons assms(2) have "c \<in> set (tl M)" by (cases x) auto
      with M(3) assms(3) show ?thesis by blast
    qed
  qed
qed

lemma takeWhile_run:
  assumes "list_all P ds" and "post = [] \<or> \<not> P (hd post)"
  shows "takeWhile P (ds @ post) = ds" and "dropWhile P (ds @ post) = post"
  using assms by (induction ds) (cases post; auto)+

lemma matchDigits_run:
  assumes "ds \<noteq> []" "list_all isDigit ds" "post = [] \<or> \<not> isDigit (hd post)"
  shows "matchDigits (ds @ post) = Some (ds, post)"
  using assms takeWhile_run[of isDigit ds post] by (simp add: matchDigits_def)

lemma numberTail_digits:
  assumes "ds \<noteq> []" "list_all isDigit ds" "post = [] \<or> \<not> isDigit (hd post)"
  shows "numberTail pre (ds @ post) = Some ([pre @ ds, ds], post)"
proof -
  from assms(1,2) obtain d ds' where d: "ds = d # ds'" "isDigit d"
    by (cases ds) auto
  from d(2) have "\<not> isSpacePerl d" by (rule isDigit_not_space)
  with d(1) have "takeWhile isSpacePerl (ds @ post) = []"
    "dropWhile isSpacePerl (ds @ post) = ds @ post"
    by simp_all
  with matchDigits_run[OF assms] show ?thesis by (simp add: numberTail_def)
qed

lemma numberTail_space_digits:
  assumes "ds \<noteq> []" "list_all isDigit ds" "post = [] \<or> \<not> isDigit (hd post)"
  shows "numberTail pre ('' '' @ ds @ post) = Some ([pre @ '' '' @ ds, ds], post)"
proof -
  from assms(1,2) obtain d ds' where d: "ds = d # ds'" "isDigit d"
    by (cases ds) auto
  from d(2) have "\<not> isSpacePerl d" by (rule isDigit_not_space)
  moreover have "isSpacePerl CHR '' ''" by (simp add: isSpacePerl_def)
  ultimately have "takeWhile isSpacePerl ('' '' @ ds @ post) = '' ''"
    "dropWhile isSpacePerl ('' '' @ ds @ post) = ds @ post"
    using d(1) by simp_all
  with matchDigits_run[OF assms] show ?thesis by (simp add: numberTail_def)
qed

lemma prNumberPattern_token:
  assumes "tok = ''#'' \<or> tok = ''PR-'' \<or> tok = ''PR ''"
    and "ds \<noteq> []" "list_all isDigit ds" "post = [] \<or> \<not> isDigit (hd post)"
  shows "prNumberPattern (tok @ ds @ post) = Some ([tok @ ds, ds], post)"
proof -
  have a: "prNumberPattern (''#'' @ ds @ post) = Some ([''#'' @ ds, ds], post)"
    using numberTail_digits[OF assms(2-4), of "''#''"] by (simp add: prNumberPattern_def)
  have b: "prNumberPattern (''PR-'' @ ds @ post) = Some ([''PR-'' @ ds, ds], post)"
    using numberTail_digits[OF assms(2-4), of "''PR-''"] by (simp add: prNumberPattern_def)
  have c: "prNumberPattern (''PR '' @ ds @ post) = Some ([''PR '' @ ds, ds], post)"
    using numberTail_space_digits[OF assms(2-4), of "''PR''"] by (simp add: prNumberPattern_def)
  from assms(1) a b c show ?thesis by blast
qed

lemma prNumberPattern_consumes:
  assumes "prNumberPattern s = Some (m, rest)"
  shows "length rest < length s"
proof -
  from prNumberPattern_match_shape[OF assms] obtain M where "s = M @ rest" "M \<noteq> []" by blast
  then show ?thesis by simp
qed

lemma FindAllStringSubmatch_token:
  assumes "tok = ''#'' \<or> tok = ''PR-'' \<or> tok = ''PR ''"
    and "ds \<noteq> []" "list_all isDigit ds" "post = [] \<or> \<not> isDigit (hd post)"
  shows "[tok @ ds, ds] \<in> set (FindAllStringSubmatch prNumberPattern (pre @ tok @ ds @ post))"
proof (induction "length pre" arbitrary: pre rule: less_induct)
  case less
  from assms(1) obtain c y where tok: "tok @ ds @ post = c # y" "c = CHR ''#'' \<or> c = CHR ''P''"
    by auto
  show ?case
  proof (cases pre)
    case Nil
    with prNumberPattern_token[OF assms] tok(1) show ?thesis by simp
  next
    case (Cons p ps)
    show ?thesis
    proof (cases "prNumberPattern (pre @ tok @ ds @ post)")
      case None
      from less[of ps] Cons have "[tok @ ds, ds] \<in> set (FindAllStringSubmatch prNumberPattern (ps @ tok @ ds @ post))"
        by simp
      with None Cons show ?thesis by simp
    next
      case (Some r)
      obtain m rest where r: "r = (m, rest)" by (cases r)
      from Some r tok(1) have "prNumberPattern (pre @ c # y) = Some (m, rest)" by simp
      from prNumberPattern_ends_before[OF this _ tok(2)] Cons obtain x' where
        x': "rest = x' @ c # y" "length x' < length pre" by auto
      from prNumberPattern_consumes Some r have "length rest < length (pre @ tok @ ds @ post)"
        by blast
      with Some r Cons have "FindAllStringSubmatch prNumberPattern (pre @ tok @ ds @ post)
          = m # FindAllStringSubmatch prNumberPattern rest"
        by simp
      moreover from less[OF x'(2)] x'(1) tok(1) have
        "[tok @ ds, ds] \<in> set (FindAllStringSubmatch prNumberPattern rest)" by simp
      ultimately show ?thesis by simp
    qed
  qed
qed

lemma appendNumberMatch_mono: "set refs \<subseteq> set (appendNumberMatch refs m)"
  by (induction refs m rule: appendNumberMatch.induct) (auto split: option.splits)

lemma foldl_appendNumberMatch_mono: "set refs \<subseteq> set (foldl appendNumberMatch refs ms)"
proof (induction ms arbitrary: refs)
  case Nil
  show ?case by simp
next
  case (Cons m ms)
  from appendNumberMatch_mono[of refs m] Cons[of "appendNumberMatch refs m"] show ?case by simp
qed

lemma appendNumberMatch_adds:
  assumes "Atoi ds = Some n"
  shows "(\<exists>r\<in>set refs. Number r = n) \<or>
         \<lparr>Owner = [], Repository = [], Number = n, URL = []\<rparr> \<in> set (appendNumberMatch refs [m0, ds])"
  using assms by (auto simp: list_ex_iff)

lemma foldl_appendNumberMatch_adds:
  assumes "[m0, ds] \<in> set ms" and "Atoi ds = Some n"
  shows "(\<exists>r\<in>set refs. Number r = n) \<or>
         \<lparr>Owner = [], Repository = [], Number = n, URL = []\<rparr> \<in> set (foldl appendNumberMatch refs ms)"
  using assms(1)
proof (induction ms arbitrary: refs)
  case Nil
  then show ?case by simp
next
  case (Cons m ms)
  show ?case
  proof (cases "m = [m0, ds]")
    case True
    from appendNumberMatch_adds[OF assms(2), of refs m0] True
      foldl_appendNumberMatch_mono[of "appendNumberMatch refs m" ms]
    show ?thesis by auto
  next
    case False
    with Cons.prems have "[m0, ds] \<in> set ms" by simp
    from Cons.IH[OF this, of "appendNumberMatch refs m"] show ?thesis
    proof
      assume "\<exists>r\<in>set (appendNumberMatch refs m). Number r = n"
      then obtain r where r: "r \<in> set (appendNumberMatch refs m)" "Number r = n" by blast
      show ?thesis
      proof (cases "r \<in> set refs")
        case True
        with r(2) show ?thesis by blast
      next
        case False
        with r have "r = \<lparr>Owner = [], Repository = [], Number = n, URL = []\<rparr>"
          by (induction refs m rule: appendNumberMatch.induct) (auto split: option.splits if_splits)
        with r(1) foldl_appendNumberMatch_mono[of "appendNumberMatch refs m" ms]
        show ?thesis by auto
      qed
    next
      assume "\<lparr>Owner = [], Repository = [], Number = n, URL = []\<rparr>
          \<in> set (foldl appendNumberMatch (appendNumberMatch refs m) ms)"
      then show ?thesis by simp
    qed
  qed
qed

lemma prURLPattern_candidate:
  assumes "m \<in> set (FindAllStringSubmatch prURLPattern message)"
  shows "\<exists>scheme owner repo digits.
           (scheme = ''http'' \<or> scheme = ''https'') \<and>
           m = [scheme @ ''://github.com/'' @ owner @ ''/'' @ repo @ ''/pull/'' @ digits,
                owner, repo, digits] \<and>
           (\<forall>refs. appendURLMatch refs m =
              (case Atoi digits of
                 None \<Rightarrow> refs
               | Some n \<Rightarrow>
                   if scheme = ''https'' \<and>
                      url_Parse (hd m) = Inr \<lparr>Scheme = ''https'', Host = ''github.com''\<rparr>
                   then refs @ [\<lparr>Owner = owner, Repository = repo, Number = n, URL = hd m\<rparr>]
                   else refs))"
proof -
  from FindAllStringSubmatch_mem[OF assms] obtain s rest where
    "prURLPattern s = Some (m, rest)" by blast
  from prURLPattern_Some[OF this] obtain scheme owner repo ds where
    sch: "scheme = ''http'' \<or> scheme = ''https''" and
    m: "m = [scheme @ ''://github.com/'' @ owner @ ''/'' @ repo @ ''/pull/'' @ ds, owner, repo, ds]"
    by blast
  have "appendURLMatch refs m =
      (case Atoi ds of
         None \<Rightarrow> refs
       | Some n \<Rightarrow>
           if scheme = ''https'' \<and>
              url_Parse (hd m) = Inr \<lparr>Scheme = ''https'', Host = ''github.com''\<rparr>
           then refs @ [\<lparr>Owner = owner, Repository = repo, Number = n, URL = hd m\<rparr>]
           else refs)" for refs
    using validateGitHubURL_match[OF sch, of "owner @ ''/'' @ repo @ ''/pull/'' @ ds"]
    by (cases "validateGitHubURL (scheme @ ''://github.com/'' @ owner @ ''/'' @ repo @ ''/pull/'' @ ds)")
       (auto simp: m split: option.splits)
  with sch m show ?thesis by blast
qed

section \<open>Facts about the retry loop and the handler\<close>

subsection \<open>One attempt\<close>

lemma reviewCalls_simps [simp]:
  "reviewCalls [] = 0"
  "reviewCalls (tr @ es) = reviewCalls tr + reviewCalls es"
  "reviewCalls (CreateReview owner repo n # es) = Suc (reviewCalls es)"
  "reviewCalls (Sleep d # es) = reviewCalls es"
  "reviewCalls (GetPullRequest owner repo n # es) = reviewCalls es"
  "reviewCalls (AddReaction c t e # es) = reviewCalls es"
  by (simp_all add: reviewCalls_def)

lemma ApprovePR_trace: "snd (ApprovePR gh req tr) = tr @ [reviewEvent req]"
  by (simp add: ApprovePR_def Let_def reviewEvent_def split: response.splits)

lemma ApprovePR_no_error: "snd (fst (ApprovePR gh req tr)) = None"
  by (simp add: ApprovePR_def Let_def split: response.splits)

lemma ApprovePR_transient:
  assumes "reviewResponse gh req (reviewCalls tr) = Failed status err"
  shows "ApprovePR gh req tr =
           ((\<lparr>Request = req, Success = False, ReviewID = 0,
               Error = approvalError req status err, RetryAttempts = 0\<rparr>, None),
            tr @ [reviewEvent req])"
  using assms by (simp add: ApprovePR_def Let_def reviewEvent_def reviewResponse_def)

lemma retryLoop_transient_step:
  assumes "attempt < maxRetries" and "\<not> (0 < attempt \<and> ctx_Done gh attempt)"
    and "reviewResponse gh req (reviewCalls tr) = Failed status err"
    and "\<not> isPermanentError (approvalError req status err)"
  shows "retryLoop gh req attempt lastResult lastErr tr =
           retryLoop gh req (Suc attempt)
             (Some \<lparr>Request = req, Success = False, ReviewID = 0,
                     Error = approvalError req status err, RetryAttempts = 0\<rparr>)
             (Some (Errorf (''approval failed: '' @ approvalError req status err)))
             ((if 0 < attempt then tr @ [Sleep (2 ^ attempt)] else tr) @ [reviewEvent req])"
proof -
  from assms(3) have "reviewResponse gh req (reviewCalls (if 0 < attempt then tr @ [Sleep (2 ^ attempt)] else tr))
      = Failed status err" by simp
  from ApprovePR_transient[OF this] assms(1,2,4) show ?thesis
    by (subst retryLoop.simps) auto
qed

lemma retryLoop_exhausted:
  "retryLoop gh req maxRetries (Some r) lastErr tr = (Inr (r\<lparr>RetryAttempts := int maxRetries\<rparr>), tr)"
  by (subst retryLoop.simps) simp

lemma retryLoop_cancelled:
  assumes "attempt < maxRetries" "0 < attempt" "ctx_Done gh attempt"
  shows "retryLoop gh req attempt lastResult lastErr tr = (Inl ContextErr, tr)"
  using assms by (subst retryLoop.simps) simp

subsection \<open>Invariants of the loop, by induction on its recursion\<close>

lemma retryLoop_calls_bound:
  "reviewCalls (snd (retryLoop gh req attempt lastResult lastErr tr))
     \<le> reviewCalls tr + (maxRetries - attempt)"
proof (induction gh req attempt lastResult lastErr tr rule: retryLoop.induct)
  case (1 gh req attempt lastResult lastErr tr)
  let ?tr = "if 0 < attempt then tr @ [Sleep (2 ^ attempt)] else tr"
  obtain result err tr' where a: "ApprovePR gh req ?tr = ((result, err), tr')"
    by (metis prod.collapse)
  with ApprovePR_trace[of gh req ?tr] ApprovePR_no_error[of gh req ?tr]
  have tr': "tr' = ?tr @ [reviewEvent req]" and err: "err = None" by simp_all
  have calls: "reviewCalls tr' = Suc (reviewCalls tr)"
    unfolding tr' by (simp add: reviewEvent_def)
  show ?case
  proof (cases "attempt < maxRetries")
    case False
    then show ?thesis by (subst retryLoop.simps) (simp split: option.splits)
  next
    case True
    show ?thesis
    proof (cases "0 < attempt \<and> ctx_Done gh attempt")
      case True
      with \<open>attempt < maxRetries\<close> show ?thesis by (subst retryLoop.simps) simp
    next
      case False
      show ?thesis
      proof (cases "Success result \<or> isPermanentError (Error result)")
        case True
        with \<open>attempt < maxRetries\<close> False a err calls show ?thesis
          by (subst retryLoop.simps) (auto simp del: reviewCalls_simps(2))
      next
        case stop: False
        from "1.IH"(1)[OF \<open>attempt < maxRetries\<close> False a[symmetric] refl err stop]
        have "reviewCalls (snd (retryLoop gh req (Suc attempt) (Some result)
                 (Some (Errorf (''approval failed: '' @ Error result))) tr'))
              \<le> reviewCalls tr' + (maxRetries - Suc attempt)" .
        with \<open>attempt < maxRetries\<close> False a err calls stop show ?thesis
          by (subst retryLoop.simps) (auto simp del: reviewCalls_simps(2))
      qed
    qed
  qed
qed


lemma retryLoop_events:
  "\<exists>evs. snd (retryLoop gh req attempt lastResult lastErr tr) = tr @ evs \<and>
         \<not> list_ex isGetPullRequest evs \<and> \<not> list_ex isAddReaction evs"
proof (induction gh req attempt lastResult lastErr tr rule: retryLoop.induct)
  case (1 gh req attempt lastResult lastErr tr)
  let ?tr = "if 0 < attempt then tr @ [Sleep (2 ^ attempt)] else tr"
  obtain result err tr' where a: "ApprovePR gh req ?tr = ((result, err), tr')"
    by (metis prod.collapse)
  with ApprovePR_trace[of gh req ?tr] ApprovePR_no_error[of gh req ?tr]
  have tr': "tr' = ?tr @ [reviewEvent req]" and err: "err = None" by simp_all
  have ext: "\<exists>evs. tr' = tr @ evs \<and> \<not> list_ex isGetPullRequest evs \<and> \<not> list_ex isAddReaction evs"
    unfolding tr' by (simp add: reviewEvent_def)
  show ?case
  proof (cases "attempt < maxRetries")
    case False
    then show ?thesis by (subst retryLoop.simps) (simp split: option.splits)
  next
    case True
    show ?thesis
    proof (cases "0 < attempt \<and> ctx_Done gh attempt")
      case cancelled: True
      with True show ?thesis by (subst retryLoop.simps) simp
    next
      case False
      show ?thesis
      proof (cases "Success result \<or> isPermanentError (Error result)")
        case stop: True
        have "snd (retryLoop gh req attempt lastResult lastErr tr) = tr'"
          using True False a err stop by (subst retryLoop.simps) auto
        with ext show ?thesis by simp
      next
        case continue: False
        have eq: "snd (retryLoop gh req attempt lastResult lastErr tr) =
              snd (retryLoop gh req (Suc attempt) (Some result)
                 (Some (Errorf (''approval failed: '' @ Error result))) tr')"
          using True False a err continue by (subst retryLoop.simps) auto
        from "1.IH"(1)[OF True False a[symmetric] refl err continue] obtain evs where
          evs: "snd (retryLoop gh req (Suc attempt) (Some result)
                 (Some (Errorf (''approval failed: '' @ Error result))) tr') = tr' @ evs"
          "\<not> list_ex isGetPullRequest evs" "\<not> list_ex isAddReaction evs" by blast
        from ext obtain evs0 where
          evs0: "tr' = tr @ evs0" "\<not> list_ex isGetPullRequest evs0" "\<not> list_ex isAddReaction evs0"
          by blast
        from evs evs0 eq show ?thesis
          by (intro exI[of _ "evs0 @ evs"]) (auto simp: list_ex_iff)
      qed
    qed
  qed
qed

subsection \<open>The three attempts, one by one\<close>

lemma first_attempt_transient:
  assumes "reviewResponse gh req (reviewCalls tr) = Failed status err"
    and "\<not> isPermanentError (approvalError req status err)"
  shows "retryLoop gh req 0 lastResult lastErr tr =
           retryLoop gh req (Suc 0) (Some (failedResult req status err))
             (Some (Errorf (''approval failed: '' @ approvalError req status err)))
             (tr @ [reviewEvent req])"
  using retryLoop_transient_step[of 0 gh req tr status err lastResult lastErr] assms
  by (simp add: maxRetries_def failedResult_def)

lemma second_attempt_transient:
  assumes "\<not> ctx_Done gh 1"
    and "reviewResponse gh req (reviewCalls tr) = Failed status err"
    and "\<not> isPermanentError (approvalError req status err)"
  shows "retryLoop gh req (Suc 0) lastResult lastErr tr =
           retryLoop gh req (Suc (Suc 0)) (Some (failedResult req status err))
             (Some (Errorf (''approval failed: '' @ approvalError req status err)))
             (tr @ [Sleep 2, reviewEvent req])"
  using retryLoop_transient_step[of "Suc 0" gh req tr status err lastResult lastErr] assms
  by (simp add: maxRetries_def failedResult_def)

lemma third_attempt_transient:
  assumes "\<not> ctx_Done gh 2"
    and "reviewResponse gh req (reviewCalls tr) = Failed status err"
    and "\<not> isPermanentError (approvalError req status err)"
  shows "retryLoop gh req (Suc (Suc 0)) lastResult lastErr tr =
           retryLoop gh req (Suc (Suc (Suc 0))) (Some (failedResult req status err))
             (Some (Errorf (''approval failed: '' @ approvalError req status err)))
             (tr @ [Sleep 4, reviewEvent req])"
  using retryLoop_transient_step[of "Suc (Suc 0)" gh req tr status err lastResult lastErr] assms
  by (simp add: maxRetries_def failedResult_def numeral_2_eq_2[symmetric])

lemma after_third_attempt:
  "retryLoop gh req (Suc (Suc (Suc 0))) (Some r) lastErr tr = (Inr (r\<lparr>RetryAttempts := 3\<rparr>), tr)"
  using retryLoop_exhausted[of gh req r lastErr tr]
  by (simp add: maxRetries_def numeral_3_eq_3)

lemma transientFailure_Failed:
  assumes "transientFailure req resp"
  obtains status err where "resp = Failed status err"
    "\<not> isPermanentError (approvalError req status err)"
  using assms by (cases resp) (simp_all add: transientFailure_def)

subsection \<open>The two outcomes of the validation\<close>

lemma ValidatePRReference_trace:
  "snd (ValidatePRReference gh (ReqOwner req) (ReqRepository req) (PRNumber req) tr)
     = tr @ [validationEvent req]"
  by (simp add: ValidatePRReference_def validationEvent_def split: response.splits)

lemma ValidatePRReference_fails:
  "fst (ValidatePRReference gh (ReqOwner req) (ReqRepository req) (PRNumber req) tr) \<noteq> None
     \<longleftrightarrow> validationFails gh req"
  by (simp add: ValidatePRReference_def validationFails_def split: response.splits)

lemma processApproval_validation_failed:
  assumes "validationFails gh req"
  shows "processApproval gh req tr = tr @ [validationEvent req]"
proof -
  obtain verr tr1 where
    v: "ValidatePRReference gh (ReqOwner req) (ReqRepository req) (PRNumber req) tr = (verr, tr1)"
    by (metis prod.collapse)
  with ValidatePRReference_trace[of gh req tr] ValidatePRReference_fails[of gh req tr] assms
  have "tr1 = tr @ [validationEvent req]" "verr \<noteq> None" by simp_all
  with v show ?thesis by (auto simp: processApproval_def)
qed

lemma processApproval_validated:
  assumes "\<not> validationFails gh req"
  shows "processApproval gh req tr =
     (case ApprovePRWithRetry gh req (tr @ [validationEvent req]) of
        (Inl err, tr2) \<Rightarrow> tr2
      | (Inr result, tr2) \<Rightarrow>
          tr2 @ [AddReaction (SourceChannel req) (Timestamp (SourceMessage req))
                   (if Success result then ''white_check_mark'' else ''x'')])"
proof -
  obtain verr tr1 where
    v: "ValidatePRReference gh (ReqOwner req) (ReqRepository req) (PRNumber req) tr = (verr, tr1)"
    by (metis prod.collapse)
  with ValidatePRReference_trace[of gh req tr] ValidatePRReference_fails[of gh req tr] assms
  have "tr1 = tr @ [validationEvent req]" "verr = None" by simp_all
  with v show ?thesis
    by (simp add: processApproval_def addReaction_def split: prod.splits sum.splits)
qed

section \<open>The claims\<close>

subsection \<open>Validation and approval\<close>

text \<open>
  C1. \<open>processApproval\<close> first asks GitHub for the pull request, once: the call is the
  first event it adds and no later event is such a call. When the validation fails (the
  call fails, as for a pull request that is not found or not accessible, or the pull
  request is not open or is merged), no approval call follows.
\<close>

theorem processApproval_validation_first:
  "(fst (ValidatePRReference gh (ReqOwner req) (ReqRepository req) (PRNumber req) tr) \<noteq> None)
     = validationFails gh req \<and>
   (\<exists>rest. processApproval gh req tr = tr @ validationEvent req # rest \<and>
           \<not> list_ex isGetPullRequest rest \<and>
           (validationFails gh req \<longrightarrow> \<not> list_ex isCreateReview rest))"
proof -
  have gate: "\<exists>rest. processApproval gh req tr = tr @ validationEvent req # rest \<and>
           \<not> list_ex isGetPullRequest rest \<and>
           (validationFails gh req \<longrightarrow> \<not> list_ex isCreateReview rest)"
  proof (cases "validationFails gh req")
    case True
    from processApproval_validation_failed[OF True, of tr] show ?thesis by simp
  next
    case False
    obtain res tr2 where a: "ApprovePRWithRetry gh req (tr @ [validationEvent req]) = (res, tr2)"
      by (metis prod.collapse)
    from retryLoop_events[of gh req 0 None None "tr @ [validationEvent req]"] a obtain evs where
      evs: "tr2 = (tr @ [validationEvent req]) @ evs" "\<not> list_ex isGetPullRequest evs"
      by (auto simp: ApprovePRWithRetry_def)
    show ?thesis
    proof (cases res)
      case (Inl err)
      with processApproval_validated[OF False, of tr] a evs False show ?thesis by simp
    next
      case (Inr result)
      with processApproval_validated[OF False, of tr] a evs False show ?thesis by simp
    qed
  qed
  from ValidatePRReference_fails[of gh req tr] gate show ?thesis by (rule conjI)
qed

theorem processApproval_validation_first_witness:
  "validationFails ghMerged exampleRequest \<and>
   (\<exists>rest. processApproval ghMerged exampleRequest [] = [] @ validationEvent exampleRequest # rest \<and>
           \<not> list_ex isGetPullRequest rest \<and> \<not> list_ex isCreateReview rest)"
proof -
  have "validationFails ghMerged exampleRequest"
    by (simp add: validationFails_def ghMerged_def)
  with processApproval_validation_first[of ghMerged exampleRequest "[]"] show ?thesis
    by blast
qed

text \<open>
  C2. \<open>ApprovePRWithRetry\<close> never makes more than three approval calls. When the first
  three calls fail with a transient error (an error message that \<open>isPermanentError\<close>
  rejects) and no wait is cancelled, it makes exactly three calls, waits 2 and 4 seconds
  between them, and returns the result of the third call with \<open>Success = False\<close> and
  \<open>RetryAttempts = 3\<close>.
\<close>

theorem ApprovePRWithRetry_exhausted:
  "reviewCalls (snd (ApprovePRWithRetry gh req tr)) \<le> reviewCalls tr + 3 \<and>
   ((\<forall>k<3. transientFailure req (reviewResponse gh req (reviewCalls tr + k))) \<and>
    \<not> ctx_Done gh 1 \<and> \<not> ctx_Done gh 2 \<longrightarrow>
    (\<exists>status err.
       reviewResponse gh req (reviewCalls tr + 2) = Failed status err \<and>
       ApprovePRWithRetry gh req tr =
         (Inr \<lparr>Request = req, Success = False, ReviewID = 0,
                Error = approvalError req status err, RetryAttempts = 3\<rparr>,
          tr @ [reviewEvent req, Sleep 2, reviewEvent req, Sleep 4, reviewEvent req])))"
proof (intro conjI impI)
  from retryLoop_calls_bound[of gh req 0 None None tr]
  show "reviewCalls (snd (ApprovePRWithRetry gh req tr)) \<le> reviewCalls tr + 3"
    by (simp add: ApprovePRWithRetry_def maxRetries_def)
next
  assume h: "(\<forall>k<3. transientFailure req (reviewResponse gh req (reviewCalls tr + k))) \<and>
    \<not> ctx_Done gh 1 \<and> \<not> ctx_Done gh 2"
  then have all: "\<And>k. k < 3 \<Longrightarrow> transientFailure req (reviewResponse gh req (reviewCalls tr + k))"
    by blast
  let ?e = "reviewEvent req"
  from all[of 0] obtain s0 e0 where
    r0: "reviewResponse gh req (reviewCalls tr) = Failed s0 e0"
      "\<not> isPermanentError (approvalError req s0 e0)"
    by (auto elim: transientFailure_Failed)
  from all[of 1] obtain s1 e1 where
    r1: "reviewResponse gh req (reviewCalls (tr @ [?e])) = Failed s1 e1"
      "\<not> isPermanentError (approvalError req s1 e1)"
    by (auto elim: transientFailure_Failed simp: reviewEvent_def)
  from all[of 2] obtain s2 e2 where
    r2: "reviewResponse gh req (reviewCalls ((tr @ [?e]) @ [Sleep 2, ?e])) = Failed s2 e2"
      "\<not> isPermanentError (approvalError req s2 e2)"
    by (auto elim: transientFailure_Failed simp: reviewEvent_def)
  from h have c: "\<not> ctx_Done gh 1" "\<not> ctx_Done gh 2" by simp_all
  have "retryLoop gh req 0 None None tr =
      (Inr ((failedResult req s2 e2)\<lparr>RetryAttempts := 3\<rparr>),
       ((tr @ [?e]) @ [Sleep 2, ?e]) @ [Sleep 4, ?e])"
    by (simp only: first_attempt_transient[OF r0] second_attempt_transient[OF c(1) r1]
        third_attempt_transient[OF c(2) r2] after_third_attempt)
  moreover from r2(1) have "reviewResponse gh req (reviewCalls tr + 2) = Failed s2 e2"
    by (simp add: reviewEvent_def)
  ultimately show "\<exists>status err.
       reviewResponse gh req (reviewCalls tr + 2) = Failed status err \<and>
       ApprovePRWithRetry gh req tr =
         (Inr \<lparr>Request = req, Success = False, ReviewID = 0,
                Error = approvalError req status err, RetryAttempts = 3\<rparr>,
          tr @ [reviewEvent req, Sleep 2, reviewEvent req, Sleep 4, reviewEvent req])"
    by (simp add: ApprovePRWithRetry_def failedResult_def)
qed

theorem ApprovePRWithRetry_exhausted_witness:
  "transientFailure exampleRequest (reviewResponse ghServerError exampleRequest 0) \<and>
   transientFailure exampleRequest (reviewResponse ghServerError exampleRequest 1) \<and>
   transientFailure exampleRequest (reviewResponse ghServerError exampleRequest 2) \<and>
   \<not> ctx_Done ghServerError 1 \<and> \<not> ctx_Done ghServerError 2 \<and>
   ApprovePRWithRetry ghServerError exampleRequest [] =
     (Inr \<lparr>Request = exampleRequest, Success = False, ReviewID = 0,
            Error = ''failed to approve PR #42: server error'', RetryAttempts = 3\<rparr>,
      [CreateReview ''acme'' ''widget'' 42, Sleep 2, CreateReview ''acme'' ''widget'' 42,
       Sleep 4, CreateReview ''acme'' ''widget'' 42])"
proof -
  have resp: "reviewResponse ghServerError exampleRequest k = Failed (Some 500) ''server error''"
    for k
    by (simp add: reviewResponse_def ghServerError_def)
  have msg: "approvalError exampleRequest (Some 500) ''server error''
      = ''failed to approve PR #42: server error''"
    by (simp add: approvalError_def exampleRequest_def Itoa_def)
  have "\<not> isPermanentError ''failed to approve PR #42: server error''"
    by (simp add: isPermanentError_def permanentErrors_def)
  with resp msg have t: "transientFailure exampleRequest (reviewResponse ghServerError exampleRequest k)"
    for k
    by (simp add: transientFailure_def)
  have c: "\<not> ctx_Done ghServerError 1" "\<not> ctx_Done ghServerError 2"
    by (simp_all add: ghServerError_def)
  from ApprovePRWithRetry_exhausted[of ghServerError exampleRequest "[]"] t c
  have "\<exists>status err.
       reviewResponse ghServerError exampleRequest (reviewCalls [] + 2) = Failed status err \<and>
       ApprovePRWithRetry ghServerError exampleRequest [] =
         (Inr \<lparr>Request = exampleRequest, Success = False, ReviewID = 0,
                Error = approvalError exampleRequest status err, RetryAttempts = 3\<rparr>,
          [] @ [reviewEvent exampleRequest, Sleep 2, reviewEvent exampleRequest, Sleep 4,
                reviewEvent exampleRequest])"
    by blast
  with resp msg have "ApprovePRWithRetry ghServerError exampleRequest [] =
     (Inr \<lparr>Request = exampleRequest, Success = False, ReviewID = 0,
            Error = ''failed to approve PR #42: server error'', RetryAttempts = 3\<rparr>,
      [CreateReview ''acme'' ''widget'' 42, Sleep 2, CreateReview ''acme'' ''widget'' 42,
       Sleep 4, CreateReview ''acme'' ''widget'' 42])"
    by (auto simp: reviewEvent_def exampleRequest_def)
  with t c show ?thesis by simp
qed

subsection \<open>Feedback reactions\<close>



text \<open>
  C4. A request whose pull request is not found is dispatched, validated, and dropped:
  \<open>processApproval\<close> makes the one call to GitHub and applies no reaction to the message,
  where the claim expects the failure symbol.
\<close>

theorem processApproval_validation_failure_silent:
  "processApproval ghNotFound exampleRequest [] = [GetPullRequest ''acme'' ''widget'' 42]"
  by (simp add: processApproval_def ValidatePRReference_def ghNotFound_def exampleRequest_def)

subsection \<open>Extraction of references\<close>

text \<open>
  C5. The references of the result that carry a URL are exactly what the first loop
  collects from the matches of the URL pattern. Every such match starts with \<open>http\<close> or
  \<open>https\<close> followed by \<open>://github.com/\<close> in exactly this spelling, and it adds a
  reference, with owner, repository, number and URL, exactly when its scheme is \<open>https\<close>,
  \<open>Atoi\<close> accepts its digits and \<open>url.Parse\<close> accepts it; a match with scheme \<open>http\<close> adds
  nothing.
\<close>

theorem url_candidate_reference:
  "filter (\<lambda>r. URL r \<noteq> []) (ExtractPRReferences message) =
     foldl appendURLMatch [] (FindAllStringSubmatch prURLPattern message) \<and>
   (\<forall>m\<in>set (FindAllStringSubmatch prURLPattern message).
      \<exists>scheme owner repo digits.
        (scheme = ''http'' \<or> scheme = ''https'') \<and>
        m = [scheme @ ''://github.com/'' @ owner @ ''/'' @ repo @ ''/pull/'' @ digits,
             owner, repo, digits] \<and>
        (\<forall>refs. appendURLMatch refs m =
           (case Atoi digits of
              None \<Rightarrow> refs
            | Some n \<Rightarrow>
                if scheme = ''https'' \<and>
                   url_Parse (hd m) = Inr \<lparr>Scheme = ''https'', Host = ''github.com''\<rparr>
                then refs @ [\<lparr>Owner = owner, Repository = repo, Number = n, URL = hd m\<rparr>]
                else refs)))"
  using ExtractPRReferences_URL_part[of message] prURLPattern_candidate[of _ message]
  by blast

theorem url_candidate_reference_witness:
  "[''https://github.com/acme/widget/pull/42'', ''acme'', ''widget'', ''42'']
     \<in> set (FindAllStringSubmatch prURLPattern ''LGTM https://github.com/acme/widget/pull/42'') \<and>
   (\<exists>scheme owner repo digits.
      (scheme = ''http'' \<or> scheme = ''https'') \<and>
      [''https://github.com/acme/widget/pull/42'', ''acme'', ''widget'', ''42''] =
        [scheme @ ''://github.com/'' @ owner @ ''/'' @ repo @ ''/pull/'' @ digits,
         owner, repo, digits] \<and>
      (\<forall>refs. appendURLMatch refs
                 [''https://github.com/acme/widget/pull/42'', ''acme'', ''widget'', ''42''] =
         (case Atoi digits of
            None \<Rightarrow> refs
          | Some n \<Rightarrow>
              if scheme = ''https'' \<and>
                 url_Parse (hd [''https://github.com/acme/widget/pull/42'', ''acme'',
                                ''widget'', ''42''])
                   = Inr \<lparr>Scheme = ''https'', Host = ''github.com''\<rparr>
              then refs @ [\<lparr>Owner = owner, Repository = repo, Number = n,
                             URL = hd [''https://github.com/acme/widget/pull/42'', ''acme'',
                                       ''widget'', ''42'']\<rparr>]
              else refs))) \<and>
   ExtractPRReferences ''LGTM https://github.com/acme/widget/pull/42'' =
     [\<lparr>Owner = ''acme'', Repository = ''widget'', Number = 42,
        URL = ''https://github.com/acme/widget/pull/42''\<rparr>]"
proof -
  have mem: "[''https://github.com/acme/widget/pull/42'', ''acme'', ''widget'', ''42'']
     \<in> set (FindAllStringSubmatch prURLPattern ''LGTM https://github.com/acme/widget/pull/42'')"
    by code_simp
  have run: "ExtractPRReferences ''LGTM https://github.com/acme/widget/pull/42'' =
     [\<lparr>Owner = ''acme'', Repository = ''widget'', Number = 42,
        URL = ''https://github.com/acme/widget/pull/42''\<rparr>]"
    by code_simp
  from url_candidate_reference[of "''LGTM https://github.com/acme/widget/pull/42''"] mem run
  show ?thesis by blast
qed

text \<open>
  As stated, with a host compared without regard to letter case, C5 fails: the pattern
  spells the host in lower case, so a URL with the host \<open>GitHub.com\<close> is not a match and
  gives no reference.
\<close>

theorem url_host_case_sensitive:
  "ExtractPRReferences ''https://GitHub.com/acme/widget/pull/42'' = []"
  by code_simp

text \<open>
  C6. A text that holds \<open>#\<close>, \<open>PR-\<close> or \<open>PR\<close> and a space, in upper case, followed by a run
  of digits that \<open>Atoi\<close> accepts, gives a reference with that number; unless a reference
  with a URL already has the number, it is the reference with only the number filled in.
\<close>

theorem bare_reference_recognised:
  assumes "tok = ''#'' \<or> tok = ''PR-'' \<or> tok = ''PR ''"
    and "ds \<noteq> []" and "list_all isDigit ds" and "post = [] \<or> \<not> isDigit (hd post)"
    and "Atoi ds = Some n"
  shows "(\<exists>r\<in>set (ExtractPRReferences (pre @ tok @ ds @ post)). Number r = n) \<and>
         ((\<forall>r\<in>set (ExtractPRReferences (pre @ tok @ ds @ post)). Number r = n \<longrightarrow> URL r = []) \<longrightarrow>
            \<lparr>Owner = [], Repository = [], Number = n, URL = []\<rparr>
              \<in> set (ExtractPRReferences (pre @ tok @ ds @ post)))"
proof -
  let ?text = "pre @ tok @ ds @ post"
  let ?urls = "foldl appendURLMatch [] (FindAllStringSubmatch prURLPattern ?text)"
  let ?bare = "\<lparr>Owner = [], Repository = [], Number = n, URL = []\<rparr>"
  have mem: "[tok @ ds, ds] \<in> set (FindAllStringSubmatch prNumberPattern ?text)"
    by (rule FindAllStringSubmatch_token[OF assms(1-4)])
  have alt: "(\<exists>r\<in>set ?urls. Number r = n) \<or> ?bare \<in> set (ExtractPRReferences ?text)"
    unfolding ExtractPRReferences_def
    by (rule foldl_appendNumberMatch_adds[OF mem assms(5)])
  have sub: "set ?urls \<subseteq> set (ExtractPRReferences ?text)"
    unfolding ExtractPRReferences_def by (rule foldl_appendNumberMatch_mono)
  have urls: "\<forall>r\<in>set ?urls. URL r \<noteq> []"
    by (rule foldl_appendURLMatch_URL_nonempty) simp
  from alt have "\<exists>r\<in>set (ExtractPRReferences ?text). Number r = n"
  proof
    assume "\<exists>r\<in>set ?urls. Number r = n"
    with sub show ?thesis by blast
  next
    assume "?bare \<in> set (ExtractPRReferences ?text)"
    moreover have "Number ?bare = n" by simp
    ultimately show ?thesis by blast
  qed
  moreover have "?bare \<in> set (ExtractPRReferences ?text)"
    if "\<forall>r\<in>set (ExtractPRReferences ?text). Number r = n \<longrightarrow> URL r = []"
    using alt sub urls that by blast
  ultimately show ?thesis by blast
qed

theorem bare_reference_recognised_witness:
  "list_all isDigit ''123'' \<and> Atoi ''123'' = Some 123 \<and>
   ExtractPRReferences (''see '' @ ''PR-'' @ ''123'' @ []) =
     [\<lparr>Owner = [], Repository = [], Number = 123, URL = []\<rparr>] \<and>
   (\<exists>r\<in>set (ExtractPRReferences (''see '' @ ''PR-'' @ ''123'' @ [])). Number r = 123) \<and>
   \<lparr>Owner = [], Repository = [], Number = 123, URL = []\<rparr>
     \<in> set (ExtractPRReferences (''see '' @ ''PR-'' @ ''123'' @ []))"
proof -
  have d: "list_all isDigit ''123''" by (simp add: isDigit_def)
  have a: "Atoi ''123'' = Some 123"
    by (simp add: Atoi_def parseDigits_def digitVal_def isDigit_def)
  have run: "ExtractPRReferences (''see '' @ ''PR-'' @ ''123'' @ []) =
     [\<lparr>Owner = [], Repository = [], Number = 123, URL = []\<rparr>]"
    by code_simp
  from bare_reference_recognised[of "''PR-''" "''123''" "[]" 123 "''see ''"] d a
  have "(\<exists>r\<in>set (ExtractPRReferences (''see '' @ ''PR-'' @ ''123'' @ [])). Number r = 123) \<and>
     ((\<forall>r\<in>set (ExtractPRReferences (''see '' @ ''PR-'' @ ''123'' @ [])).
          Number r = 123 \<longrightarrow> URL r = []) \<longrightarrow>
        \<lparr>Owner = [], Repository = [], Number = 123, URL = []\<rparr>
          \<in> set (ExtractPRReferences (''see '' @ ''PR-'' @ ''123'' @ [])))"
    by simp
  moreover from run have "\<forall>r\<in>set (ExtractPRReferences (''see '' @ ''PR-'' @ ''123'' @ [])).
      Number r = 123 \<longrightarrow> URL r = []"
    by simp
  ultimately show ?thesis using d a run by blast
qed

text \<open>
  As stated, with \<open>PR\<close> in any letter case, C6 fails: the pattern spells \<open>PR\<close> in upper
  case, and \<open>pr-123\<close> gives no reference.
\<close>

theorem bare_reference_lower_case:
  "ExtractPRReferences ''pr-123'' = []"
  by code_simp


text \<open>
  C8. Nothing in \<open>ExtractPRReferences\<close> rejects the number zero: \<open>#0\<close> and a URL that ends
  in \<open>/pull/0\<close> both give a reference with \<open>Number = 0\<close>, where the claim expects every
  number to be positive.
\<close>

theorem zero_number_extracted:
  "ExtractPRReferences ''#0'' = [\<lparr>Owner = [], Repository = [], Number = 0, URL = []\<rparr>] \<and>
   ExtractPRReferences ''https://github.com/acme/widget/pull/0'' =
     [\<lparr>Owner = ''acme'', Repository = ''widget'', Number = 0,
        URL = ''https://github.com/acme/widget/pull/0''\<rparr>]"
  by code_simp

subsection \<open>Cancellation and the result of the retry loop\<close>

text \<open>
  C9. When the context is done during the wait before the second or the third attempt
  (the earlier attempts having failed with transient errors, and the earlier wait not
  having been cancelled), \<open>ApprovePRWithRetry\<close> returns \<open>ctx.Err()\<close> and its last call to
  GitHub is the attempt before that wait.
\<close>

theorem ApprovePRWithRetry_cancelled:
  assumes "k = 1 \<or> k = 2"
    and "\<forall>j<k. transientFailure req (reviewResponse gh req (reviewCalls tr + j))"
    and "\<forall>j<k. 0 < j \<longrightarrow> \<not> ctx_Done gh j"
    and "ctx_Done gh k"
  shows "ApprovePRWithRetry gh req tr =
           (Inl ContextErr,
            tr @ (if k = 1 then [reviewEvent req] else [reviewEvent req, Sleep 2, reviewEvent req]))"
proof -
  let ?e = "reviewEvent req"
  from assms(1) have "0 < k" by auto
  with assms(2) have "transientFailure req (reviewResponse gh req (reviewCalls tr + 0))"
    by blast
  then obtain s0 e0 where
    r0: "reviewResponse gh req (reviewCalls tr) = Failed s0 e0"
      "\<not> isPermanentError (approvalError req s0 e0)"
    by (auto elim: transientFailure_Failed)
  from assms(1) show ?thesis
  proof
    assume k: "k = 1"
    with assms(4) have "retryLoop gh req (Suc 0) lastResult lastErr tr' = (Inl ContextErr, tr')"
      for lastResult lastErr tr'
      using retryLoop_cancelled[of "Suc 0" gh req lastResult lastErr tr']
      by (simp add: maxRetries_def)
    with first_attempt_transient[OF r0, of None None] k show ?thesis
      by (simp add: ApprovePRWithRetry_def)
  next
    assume k: "k = 2"
    then have "1 < k" by simp
    with assms(2) have "transientFailure req (reviewResponse gh req (reviewCalls tr + 1))"
      by blast
    then obtain s1 e1 where
      r1: "reviewResponse gh req (reviewCalls (tr @ [?e])) = Failed s1 e1"
        "\<not> isPermanentError (approvalError req s1 e1)"
      by (auto elim: transientFailure_Failed simp: reviewEvent_def)
    from \<open>1 < k\<close> assms(3) have c1: "\<not> ctx_Done gh 1" by auto
    from k assms(4) have "retryLoop gh req (Suc (Suc 0)) lastResult lastErr tr' = (Inl ContextErr, tr')"
      for lastResult lastErr tr'
      using retryLoop_cancelled[of "Suc (Suc 0)" gh req lastResult lastErr tr']
      by (simp add: maxRetries_def numeral_2_eq_2)
    with first_attempt_transient[OF r0, of None None] second_attempt_transient[OF c1 r1] k
    show ?thesis
      by (simp add: ApprovePRWithRetry_def)
  qed
qed

theorem ApprovePRWithRetry_cancelled_witness:
  "transientFailure exampleRequest (reviewResponse ghCancelled exampleRequest 0) \<and>
   transientFailure exampleRequest (reviewResponse ghCancelled exampleRequest 1) \<and>
   \<not> ctx_Done ghCancelled 1 \<and> ctx_Done ghCancelled 2 \<and>
   ApprovePRWithRetry ghCancelled exampleRequest [] =
     (Inl ContextErr,
      [CreateReview ''acme'' ''widget'' 42, Sleep 2, CreateReview ''acme'' ''widget'' 42])"
proof -
  have resp: "reviewResponse ghCancelled exampleRequest j = Failed (Some 500) ''server error''"
    for j
    by (simp add: reviewResponse_def ghCancelled_def)
  have msg: "approvalError exampleRequest (Some 500) ''server error''
      = ''failed to approve PR #42: server error''"
    by (simp add: approvalError_def exampleRequest_def Itoa_def)
  have "\<not> isPermanentError ''failed to approve PR #42: server error''"
    by (simp add: isPermanentError_def permanentErrors_def)
  with resp msg have t: "transientFailure exampleRequest (reviewResponse ghCancelled exampleRequest j)"
    for j
    by (simp add: transientFailure_def)
  have c: "\<not> ctx_Done ghCancelled 1" "ctx_Done ghCancelled 2"
    by (simp_all add: ghCancelled_def)
  have "\<forall>j<2. 0 < j \<longrightarrow> \<not> ctx_Done ghCancelled j"
    by (simp add: ghCancelled_def)
  with ApprovePRWithRetry_cancelled[of 2 exampleRequest ghCancelled "[]"] t c
  have "ApprovePRWithRetry ghCancelled exampleRequest [] =
     (Inl ContextErr,
      [] @ (if (2::nat) = 1 then [reviewEvent exampleRequest]
            else [reviewEvent exampleRequest, Sleep 2, reviewEvent exampleRequest]))"
    by blast
  then have "ApprovePRWithRetry ghCancelled exampleRequest [] =
     (Inl ContextErr,
      [CreateReview ''acme'' ''widget'' 42, Sleep 2, CreateReview ''acme'' ''widget'' 42])"
    by (simp add: reviewEvent_def exampleRequest_def)
  with t c show ?thesis by simp
qed



end
